theory Spec2Isabelle
  imports Main "HOL-Library.AList"
begin

section \<open>Python values and strings\<close>

text \<open>
  A Python \<open>str\<close> is a sequence of Unicode code points; a code point is a natural
  number. ASCII literals of the source are written \<open>ascii ''...''\<close>.
  The predicates \<open>str.isdigit\<close> and \<open>str.isspace\<close> are tables of the Python
  runtime, not of this repository: every function that consults one takes it as the
  parameter \<open>isdigit\<close> or \<open>isspace\<close>.
\<close>

type_synonym pychar = nat
type_synonym pystr = "pychar list"

definition ascii :: "string \<Rightarrow> pystr" where
  "ascii s = map of_char s"

text \<open>
  A float is modelled by what \<open>to_text\<close> and truthiness observe of it: an integral
  float by its integer value (\<open>-0.0\<close> apart, so that the value returned is told
  from \<open>0.0\<close>), any other float (fractional, infinite, nan) by its \<open>str\<close>.
  A cell is one of the values \<open>to_text\<close> tells apart: \<open>None\<close>, a bool (an
  \<open>int\<close> to \<open>isinstance\<close>, printed \<open>True\<close> or \<open>False\<close>), an integer, a float
  or a string.
\<close>

datatype pyfloat = FloatIntegral int | FloatNegZero | FloatOther pystr

datatype cell = PyNone | PyBool bool | PyInt int | PyFloat pyfloat | PyStr pystr

text \<open>A dict with string keys and values, as far as lookups go.\<close>

type_synonym dict = "pystr \<rightharpoonup> pystr"

text \<open>Python's truth value of a cell: what \<open>if not text\<close> tests.\<close>

fun truthy :: "cell \<Rightarrow> bool" where
  "truthy PyNone = False"
| "truthy (PyBool b) = b"
| "truthy (PyInt i) = (i \<noteq> 0)"
| "truthy (PyFloat (FloatIntegral i)) = (i \<noteq> 0)"
| "truthy (PyFloat FloatNegZero) = False"
| "truthy (PyFloat (FloatOther r)) = True"
| "truthy (PyStr s) = (s \<noteq> [])"

subsection \<open>Built-in string operations\<close>

text \<open>\<open>str(n)\<close> for an integer: decimal digits, a minus sign when negative.\<close>

function str_nat :: "nat \<Rightarrow> pystr" where
  "str_nat n = (if n < 10 then [48 + n] else str_nat (n div 10) @ [48 + n mod 10])"
  by pat_completeness auto
termination
  by (relation "measure id") auto

declare str_nat.simps [simp del]

definition str_int :: "int \<Rightarrow> pystr" where
  "str_int i = (if i < 0 then ascii ''-'' @ str_nat (nat (- i)) else str_nat (nat i))"

text \<open>\<open>s.strip()\<close>: whitespace removed at both ends.\<close>

definition strip :: "(pychar \<Rightarrow> bool) \<Rightarrow> pystr \<Rightarrow> pystr" where
  "strip isspace s = rev (dropWhile isspace (rev (dropWhile isspace s)))"

text \<open>\<open>s.startswith(p)\<close>.\<close>

definition startswith :: "pystr \<Rightarrow> pystr \<Rightarrow> bool" where
  "startswith s p = (take (length p) s = p)"

text \<open>
  \<open>s.split(sep)\<close> for a one-character separator: the pieces between the
  separators, empty pieces kept; never the empty list.
\<close>

fun str_split :: "pychar \<Rightarrow> pystr \<Rightarrow> pystr list" where
  "str_split sep [] = [[]]"
| "str_split sep (c # cs) =
     (if c = sep then [] # str_split sep cs
      else (case str_split sep cs of
              [] \<Rightarrow> [[c]]
            | p # ps \<Rightarrow> (c # p) # ps))"

text \<open>\<open>sep.join(xs)\<close>.\<close>

fun str_join :: "pystr \<Rightarrow> pystr list \<Rightarrow> pystr" where
  "str_join sep [] = []"
| "str_join sep [x] = x"
| "str_join sep (x # y # ys) = x @ sep @ str_join sep (y # ys)"

text \<open>
  \<open>re.split(r'([&|])', body)\<close>: the pieces between the separators, and, the group
  being captured, each separator as a one-character string between its neighbours.
\<close>

fun re_split :: "pystr \<Rightarrow> pystr list" where
  "re_split [] = [[]]"
| "re_split (c # cs) =
     (if c = of_char CHR ''&'' \<or> c = of_char CHR ''|'' then [] # [c] # re_split cs
      else (case re_split cs of
              [] \<Rightarrow> [[c]]
            | p # ps \<Rightarrow> (c # p) # ps))"

section \<open>The functions of map\_items.py\<close>

fun to_text :: "cell \<Rightarrow> pystr" where
  "to_text PyNone = []"
| "to_text (PyBool b) = (if b then ascii ''True'' else ascii ''False'')"
| "to_text (PyInt i) = str_int i"
| "to_text (PyFloat (FloatIntegral i)) = str_int i"
| "to_text (PyFloat FloatNegZero) = str_int 0"
| "to_text (PyFloat (FloatOther r)) = r"
| "to_text (PyStr s) = s"

definition digits_only :: "(pychar \<Rightarrow> bool) \<Rightarrow> pystr \<Rightarrow> pystr" where
  "digits_only isdigit s = filter isdigit s"

text \<open>The candidate list \<open>map_token\<close> builds from the digits \<open>d\<close> of the token.\<close>

definition map_token_candidates :: "pystr \<Rightarrow> pystr list" where
  "map_token_candidates d =
     (if d \<noteq> [] then
        [d] @ (if length d = 3 \<or> length d = 4 then [ascii ''66'' @ d, ascii ''6'' @ d] else [])
      else [])"

text \<open>The loop \<open>for c in candidates\<close>; falling out of it returns \<open>(token, False)\<close>.\<close>

fun map_token_loop :: "pystr list \<Rightarrow> dict \<Rightarrow> dict \<Rightarrow> pystr \<Rightarrow> pystr \<times> bool" where
  "map_token_loop [] id_to_name id_to_name_digits token = (token, False)"
| "map_token_loop (c # cs) id_to_name id_to_name_digits token =
     (if id_to_name c \<noteq> None \<and> the (id_to_name c) \<noteq> [] then (the (id_to_name c), True)
      else if id_to_name_digits c \<noteq> None \<and> the (id_to_name_digits c) \<noteq> []
        then (the (id_to_name_digits c), True)
      else map_token_loop cs id_to_name id_to_name_digits token)"

definition map_token :: "(pychar \<Rightarrow> bool) \<Rightarrow> pystr \<Rightarrow> dict \<Rightarrow> dict \<Rightarrow> pystr \<times> bool" where
  "map_token isdigit token id_to_name id_to_name_digits =
     (if id_to_name token \<noteq> None \<and> the (id_to_name token) \<noteq> []
        then (the (id_to_name token), True)
      else map_token_loop (map_token_candidates (digits_only isdigit token))
             id_to_name id_to_name_digits token)"

text \<open>
  The loop \<open>for t in id_tokens\<close> of \<open>transform_cell\<close>; its state is
  \<open>(mapped_tokens, unmatched)\<close>.
\<close>

fun transform_cell_ids ::
  "(pychar \<Rightarrow> bool) \<Rightarrow> pystr list \<Rightarrow> dict \<Rightarrow> dict \<Rightarrow> pystr list \<times> nat \<Rightarrow> pystr list \<times> nat" where
  "transform_cell_ids isdigit [] id_to_name id_to_name_digits st = st"
| "transform_cell_ids isdigit (t # ts) id_to_name id_to_name_digits (mapped_tokens, unmatched) =
     (let (name, hit) = map_token isdigit t id_to_name id_to_name_digits;
          unmatched' = (if \<not> hit then unmatched + 1 else unmatched)
      in transform_cell_ids isdigit ts id_to_name id_to_name_digits
           (mapped_tokens @ [name], unmatched'))"

text \<open>
  The loop \<open>for tk in tokens\<close>; its state is \<open>(out_parts, unmatched)\<close>.
  \<open>parts\<close> is never empty (lemma \<open>str_split_not_Nil\<close>), so \<open>hd parts\<close> is
  \<open>parts[0]\<close>.
\<close>

fun transform_cell_loop ::
  "(pychar \<Rightarrow> bool) \<Rightarrow> pystr list \<Rightarrow> dict \<Rightarrow> dict \<Rightarrow> pystr list \<times> nat \<Rightarrow> pystr list \<times> nat" where
  "transform_cell_loop isdigit [] id_to_name id_to_name_digits st = st"
| "transform_cell_loop isdigit (tk # tks) id_to_name id_to_name_digits (out_parts, unmatched) =
     (if tk = ascii ''&'' \<or> tk = ascii ''|'' then
        transform_cell_loop isdigit tks id_to_name id_to_name_digits (out_parts @ [tk], unmatched)
      else if tk = [] then
        transform_cell_loop isdigit tks id_to_name id_to_name_digits (out_parts, unmatched)
      else
        (let seg = tk;
             parts = str_split (of_char CHR ''$'') seg;
             ids_part = hd parts;
             suffix_parts = tl parts;
             id_tokens = filter (\<lambda>t. t \<noteq> []) (str_split (of_char CHR ''-'') ids_part);
             (mapped_tokens, unmatched') =
               transform_cell_ids isdigit id_tokens id_to_name id_to_name_digits ([], unmatched);
             new_ids = (if id_tokens \<noteq> [] then str_join (ascii ''-'') mapped_tokens else ids_part);
             new_seg = new_ids @
               (if suffix_parts \<noteq> [] then ascii ''$'' @ str_join (ascii ''$'') suffix_parts else [])
         in transform_cell_loop isdigit tks id_to_name id_to_name_digits
              (out_parts @ [new_seg], unmatched')))"

text \<open>
  \<open>transform_cell\<close> returns its argument itself when it is falsy, a string
  otherwise: the first component of the result is a cell.
\<close>

definition transform_cell ::
  "(pychar \<Rightarrow> bool) \<Rightarrow> (pychar \<Rightarrow> bool) \<Rightarrow> cell \<Rightarrow> bool \<Rightarrow> pystr \<Rightarrow> dict \<Rightarrow> dict \<Rightarrow> cell \<times> nat" where
  "transform_cell isdigit isspace text keep_prefix prefix id_to_name id_to_name_digits =
     (if \<not> truthy text then (text, 0)
      else
        (let s = strip isspace (to_text text);
             body = (if startswith s prefix then drop (length prefix) s else s);
             tokens = re_split body;
             (out_parts, unmatched) =
               transform_cell_loop isdigit tokens id_to_name id_to_name_digits ([], 0);
             core = concat out_parts
         in (PyStr (if keep_prefix then prefix @ core else core), unmatched)))"

subsection \<open>load\_mapping\<close>

text \<open>
  A Python dict keeps its keys in the order of their first insertion, and the
  comprehension that builds the digits dict iterates in that order: the dicts
  \<open>load_mapping\<close> builds are association lists, \<open>d[k] = v\<close> being
  \<open>AList.update k v d\<close> (the value replaced in place when the key is there, the
  pair appended otherwise). Reading the workbook is outside the model: \<open>rows\<close> are
  the pairs \<open>(v_id, v_name)\<close> the loop over the sheet reads, in order, for either
  file format.
\<close>

type_synonym odict = "(pystr \<times> pystr) list"

fun load_mapping_rows :: "(pychar \<Rightarrow> bool) \<Rightarrow> (cell \<times> cell) list \<Rightarrow> odict \<Rightarrow> odict" where
  "load_mapping_rows isspace [] id_to_name = id_to_name"
| "load_mapping_rows isspace ((v_id, v_name) # rows) id_to_name =
     (let k = strip isspace (to_text v_id);
          name = strip isspace (to_text v_name)
      in load_mapping_rows isspace rows
           (if k \<noteq> [] then AList.update k name id_to_name else id_to_name))"

text \<open>
  The comprehension
  \<open>{digits_only(k): v for k, v in id_to_name.items() if digits_only(k)}\<close>.
\<close>

fun load_mapping_digits :: "(pychar \<Rightarrow> bool) \<Rightarrow> odict \<Rightarrow> odict \<Rightarrow> odict" where
  "load_mapping_digits isdigit [] acc = acc"
| "load_mapping_digits isdigit ((k, v) # items) acc =
     load_mapping_digits isdigit items
       (if digits_only isdigit k \<noteq> [] then AList.update (digits_only isdigit k) v acc else acc)"

definition load_mapping ::
  "(pychar \<Rightarrow> bool) \<Rightarrow> (pychar \<Rightarrow> bool) \<Rightarrow> (cell \<times> cell) list \<Rightarrow> odict \<times> odict" where
  "load_mapping isdigit isspace rows =
     (let id_to_name = load_mapping_rows isspace rows [];
          id_to_name_digits = load_mapping_digits isdigit id_to_name []
      in (id_to_name, id_to_name_digits))"

section \<open>The functions of webtool/app.py\<close>

fun app_to_text :: "cell \<Rightarrow> pystr" where
  "app_to_text PyNone = []"
| "app_to_text (PyBool b) = (if b then ascii ''True'' else ascii ''False'')"
| "app_to_text (PyInt i) = str_int i"
| "app_to_text (PyFloat (FloatIntegral i)) = str_int i"
| "app_to_text (PyFloat FloatNegZero) = str_int 0"
| "app_to_text (PyFloat (FloatOther r)) = r"
| "app_to_text (PyStr s) = s"

definition app_digits_only :: "(pychar \<Rightarrow> bool) \<Rightarrow> pystr \<Rightarrow> pystr" where
  "app_digits_only isdigit s = filter isdigit s"

fun app_map_token_loop :: "pystr list \<Rightarrow> dict \<Rightarrow> dict \<Rightarrow> pystr \<Rightarrow> pystr \<times> bool" where
  "app_map_token_loop [] id_to_name id_to_name_digits token = (token, False)"
| "app_map_token_loop (c # cs) id_to_name id_to_name_digits token =
     (if id_to_name c \<noteq> None \<and> the (id_to_name c) \<noteq> [] then (the (id_to_name c), True)
      else if id_to_name_digits c \<noteq> None \<and> the (id_to_name_digits c) \<noteq> []
        then (the (id_to_name_digits c), True)
      else app_map_token_loop cs id_to_name id_to_name_digits token)"

definition app_map_token :: "(pychar \<Rightarrow> bool) \<Rightarrow> pystr \<Rightarrow> dict \<Rightarrow> dict \<Rightarrow> pystr \<times> bool" where
  "app_map_token isdigit token id_to_name id_to_name_digits =
     (if id_to_name token \<noteq> None \<and> the (id_to_name token) \<noteq> []
        then (the (id_to_name token), True)
      else
        (let d = app_digits_only isdigit token;
             candidates =
               (if d \<noteq> [] then
                  [d] @ (if length d = 3 \<or> length d = 4
                         then [ascii ''66'' @ d, ascii ''6'' @ d] else [])
                else [])
         in app_map_token_loop candidates id_to_name id_to_name_digits token))"

text \<open>
  \<open>unmatched_acc\<close> is a list the caller owns, or \<open>None\<close>; the function appends
  to it. The model threads it through the loops and returns it beside the result.
\<close>

fun app_transform_cell_ids ::
  "(pychar \<Rightarrow> bool) \<Rightarrow> pystr list \<Rightarrow> dict \<Rightarrow> dict \<Rightarrow>
   pystr list \<times> nat \<times> pystr list option \<Rightarrow> pystr list \<times> nat \<times> pystr list option" where
  "app_transform_cell_ids isdigit [] id_to_name id_to_name_digits st = st"
| "app_transform_cell_ids isdigit (tok # toks) id_to_name id_to_name_digits
       (mapped_tokens, unmatched, unmatched_acc) =
     (let (name, hit) = app_map_token isdigit tok id_to_name id_to_name_digits;
          unmatched' = (if \<not> hit then unmatched + 1 else unmatched);
          unmatched_acc' =
            (if \<not> hit then
               (case unmatched_acc of None \<Rightarrow> None | Some acc \<Rightarrow> Some (acc @ [tok]))
             else unmatched_acc)
      in app_transform_cell_ids isdigit toks id_to_name id_to_name_digits
           (mapped_tokens @ [name], unmatched', unmatched_acc'))"

fun app_transform_cell_loop ::
  "(pychar \<Rightarrow> bool) \<Rightarrow> pystr list \<Rightarrow> dict \<Rightarrow> dict \<Rightarrow>
   pystr list \<times> nat \<times> pystr list option \<Rightarrow> pystr list \<times> nat \<times> pystr list option" where
  "app_transform_cell_loop isdigit [] id_to_name id_to_name_digits st = st"
| "app_transform_cell_loop isdigit (tk # tks) id_to_name id_to_name_digits
       (out_parts, unmatched, unmatched_acc) =
     (if tk = ascii ''&'' \<or> tk = ascii ''|'' then
        app_transform_cell_loop isdigit tks id_to_name id_to_name_digits
          (out_parts @ [tk], unmatched, unmatched_acc)
      else if tk = [] then
        app_transform_cell_loop isdigit tks id_to_name id_to_name_digits
          (out_parts, unmatched, unmatched_acc)
      else
        (let seg = tk;
             parts = str_split (of_char CHR ''$'') seg;
             ids_part = hd parts;
             suffix_parts = tl parts;
             id_tokens = filter (\<lambda>tok. tok \<noteq> []) (str_split (of_char CHR ''-'') ids_part);
             (mapped_tokens, unmatched', unmatched_acc') =
               app_transform_cell_ids isdigit id_tokens id_to_name id_to_name_digits
                 ([], unmatched, unmatched_acc);
             new_ids = (if id_tokens \<noteq> [] then str_join (ascii ''-'') mapped_tokens else ids_part);
             new_seg = new_ids @
               (if suffix_parts \<noteq> [] then ascii ''$'' @ str_join (ascii ''$'') suffix_parts else [])
         in app_transform_cell_loop isdigit tks id_to_name id_to_name_digits
              (out_parts @ [new_seg], unmatched', unmatched_acc')))"

definition app_transform_cell ::
  "(pychar \<Rightarrow> bool) \<Rightarrow> (pychar \<Rightarrow> bool) \<Rightarrow> cell \<Rightarrow> bool \<Rightarrow> pystr \<Rightarrow> dict \<Rightarrow> dict \<Rightarrow>
   pystr list option \<Rightarrow> (cell \<times> nat) \<times> pystr list option" where
  "app_transform_cell isdigit isspace text keep_prefix prefix id_to_name id_to_name_digits
       unmatched_acc =
     (if \<not> truthy text then ((text, 0), unmatched_acc)
      else
        (let s = strip isspace (app_to_text text);
             body = (if startswith s prefix then drop (length prefix) s else s);
             tokens = re_split body;
             (out_parts, unmatched, unmatched_acc') =
               app_transform_cell_loop isdigit tokens id_to_name id_to_name_digits
                 ([], 0, unmatched_acc);
             core = concat out_parts
         in ((PyStr (if keep_prefix then prefix @ core else core), unmatched), unmatched_acc')))"

fun app_load_mapping_rows :: "(pychar \<Rightarrow> bool) \<Rightarrow> (cell \<times> cell) list \<Rightarrow> odict \<Rightarrow> odict" where
  "app_load_mapping_rows isspace [] id_to_name = id_to_name"
| "app_load_mapping_rows isspace ((v_id, v_name) # rows) id_to_name =
     (let k = strip isspace (app_to_text v_id);
          name = strip isspace (app_to_text v_name)
      in app_load_mapping_rows isspace rows
           (if k \<noteq> [] then AList.update k name id_to_name else id_to_name))"

fun app_load_mapping_digits :: "(pychar \<Rightarrow> bool) \<Rightarrow> odict \<Rightarrow> odict \<Rightarrow> odict" where
  "app_load_mapping_digits isdigit [] acc = acc"
| "app_load_mapping_digits isdigit ((k, v) # items) acc =
     app_load_mapping_digits isdigit items
       (if app_digits_only isdigit k \<noteq> []
        then AList.update (app_digits_only isdigit k) v acc else acc)"

definition app_load_mapping ::
  "(pychar \<Rightarrow> bool) \<Rightarrow> (pychar \<Rightarrow> bool) \<Rightarrow> (cell \<times> cell) list \<Rightarrow> odict \<times> odict" where
  "app_load_mapping isdigit isspace rows =
     (let id_to_name = app_load_mapping_rows isspace rows [];
          id_to_name_digits = app_load_mapping_digits isdigit id_to_name []
      in (id_to_name, id_to_name_digits))"

section \<open>Notions the properties are stated with\<close>

text \<open>
  Tables for evaluating the functions at concrete inputs: \<open>str.isdigit\<close> and
  \<open>str.isspace\<close> hold of these ASCII code points and of no other ASCII code point
  (the digits \<open>0\<close> to \<open>9\<close>; tab to carriage return, the four separators 28 to 31 and
  the space).
\<close>

definition ascii_isdigit :: "pychar \<Rightarrow> bool" where
  "ascii_isdigit c = (48 \<le> c \<and> c \<le> 57)"

definition ascii_isspace :: "pychar \<Rightarrow> bool" where
  "ascii_isspace c = ((9 \<le> c \<and> c \<le> 13) \<or> (28 \<le> c \<and> c \<le> 32))"

definition is_sep :: "pychar \<Rightarrow> bool" where
  "is_sep c = (c = of_char CHR ''&'' \<or> c = of_char CHR ''|'')"

text \<open>
  The default of \<open>--prefix\<close> in \<open>main\<close>: the code points U+7269 and U+54C1
  followed by \<open>=\<close>.
\<close>

definition item_prefix :: pystr where
  "item_prefix = [0x7269, 0x54C1] @ ascii ''=''"

subsection \<open>The resolver as the specification words it\<close>

text \<open>A key of the index with a non-empty value.\<close>

definition lookup_name :: "dict \<Rightarrow> pystr \<Rightarrow> pystr option" where
  "lookup_name index k =
     (case index k of None \<Rightarrow> None | Some name \<Rightarrow> if name = [] then None else Some name)"

text \<open>
  The specification's \<open>resolve\<close>: the exact index at the token; then, \<open>d\<close> being
  the digits of the token and the candidates \<open>d\<close>, \<open>"66" + d\<close>, \<open>"6" + d\<close> (the
  last two only for \<open>d\<close> of length 3 or 4), the lookups exact-then-digits of each
  candidate in order, the first that finds a name deciding.
\<close>

definition resolve :: "(pychar \<Rightarrow> bool) \<Rightarrow> pystr \<Rightarrow> dict \<Rightarrow> dict \<Rightarrow> pystr \<times> bool" where
  "resolve isdigit token exact digits =
     (case lookup_name exact token of
        Some name \<Rightarrow> (name, True)
      | None \<Rightarrow>
          (let d = filter isdigit token in
           if d = [] then (token, False)
           else
             (let candidates =
                    (if length d = 3 \<or> length d = 4
                     then [d, ascii ''66'' @ d, ascii ''6'' @ d] else [d]);
                  lookups = concat (map (\<lambda>c. [lookup_name exact c, lookup_name digits c]) candidates)
              in case List.map_filter (\<lambda>r. r) lookups of
                   [] \<Rightarrow> (token, False)
                 | name # _ \<Rightarrow> (name, True))))"

subsection \<open>Indexes\<close>

text \<open>A dict without its entries of empty value.\<close>

definition nonempty_entries :: "dict \<Rightarrow> dict" where
  "nonempty_entries m = (\<lambda>k. if m k = Some [] then None else m k)"

text \<open>
  The mapping entries of a list of rows: identifier and name as text, trimmed, the rows
  of empty identifier discarded.
\<close>

definition entries :: "(pychar \<Rightarrow> bool) \<Rightarrow> (cell \<times> cell) list \<Rightarrow> (pystr \<times> pystr) list" where
  "entries isspace rows =
     filter (\<lambda>(k, name). k \<noteq> [])
       (map (\<lambda>(v_id, v_name). (strip isspace (to_text v_id), strip isspace (to_text v_name))) rows)"

text \<open>The last entry of a list whose key has the digits \<open>d\<close>, if any.\<close>

definition last_with_digits ::
  "(pychar \<Rightarrow> bool) \<Rightarrow> pystr \<Rightarrow> (pystr \<times> pystr) list \<Rightarrow> pystr option" where
  "last_with_digits isdigit d items =
     (case filter (\<lambda>(k, v). digits_only isdigit k = d) items of
        [] \<Rightarrow> None
      | x # xs \<Rightarrow> Some (snd (last (x # xs))))"

subsection \<open>Cells and segments\<close>

text \<open>The body \<open>transform_cell\<close> parses: the text, trimmed, without the prefix.\<close>

definition cell_body :: "(pychar \<Rightarrow> bool) \<Rightarrow> cell \<Rightarrow> pystr \<Rightarrow> pystr" where
  "cell_body isspace text prefix =
     (let s = strip isspace (to_text text)
      in if startswith s prefix then drop (length prefix) s else s)"

text \<open>
  What one pass of the loop body of \<open>transform_cell\<close> does with a segment: the
  replacement \<open>new_seg\<close> and the misses it counts.
\<close>

definition transform_segment :: "(pychar \<Rightarrow> bool) \<Rightarrow> dict \<Rightarrow> dict \<Rightarrow> pystr \<Rightarrow> pystr \<times> nat" where
  "transform_segment isdigit id_to_name id_to_name_digits seg =
     (let parts = str_split (of_char CHR ''$'') seg;
          ids_part = hd parts;
          suffix_parts = tl parts;
          id_tokens = filter (\<lambda>t. t \<noteq> []) (str_split (of_char CHR ''-'') ids_part);
          (mapped_tokens, unmatched') =
            transform_cell_ids isdigit id_tokens id_to_name id_to_name_digits ([], 0);
          new_ids = (if id_tokens \<noteq> [] then str_join (ascii ''-'') mapped_tokens else ids_part);
          new_seg = new_ids @
            (if suffix_parts \<noteq> [] then ascii ''$'' @ str_join (ascii ''$'') suffix_parts else [])
      in (new_seg, unmatched'))"

text \<open>What the loop emits for one element of \<open>tokens\<close>.\<close>

definition rewrite_token :: "(pychar \<Rightarrow> bool) \<Rightarrow> dict \<Rightarrow> dict \<Rightarrow> pystr \<Rightarrow> pystr" where
  "rewrite_token isdigit id_to_name id_to_name_digits tk =
     (if tk = ascii ''&'' \<or> tk = ascii ''|'' then tk
      else fst (transform_segment isdigit id_to_name id_to_name_digits tk))"

text \<open>
  The segments of a body (the elements of \<open>tokens\<close> that are neither a separator
  nor empty), and of a segment its suffix parts and its identifier tokens.
\<close>

definition segments :: "pystr \<Rightarrow> pystr list" where
  "segments body = filter (\<lambda>tk. \<not> (tk = ascii ''&'' \<or> tk = ascii ''|'') \<and> tk \<noteq> []) (re_split body)"

definition segment_suffixes :: "pystr \<Rightarrow> pystr list" where
  "segment_suffixes seg = tl (str_split (of_char CHR ''$'') seg)"

definition segment_id_pieces :: "pystr \<Rightarrow> pystr list" where
  "segment_id_pieces seg = str_split (of_char CHR ''-'') (hd (str_split (of_char CHR ''$'') seg))"

definition segment_id_tokens :: "pystr \<Rightarrow> pystr list" where
  "segment_id_tokens seg = filter (\<lambda>t. t \<noteq> []) (segment_id_pieces seg)"

definition cell_id_tokens :: "pystr \<Rightarrow> pystr list" where
  "cell_id_tokens body = concat (map segment_id_tokens (segments body))"

text \<open>Per segment, the number of identifier tokens and the number of suffix parts.\<close>

definition cell_shape :: "pystr \<Rightarrow> (nat \<times> nat) list" where
  "cell_shape body =
     map (\<lambda>seg. (length (segment_id_tokens seg), length (segment_suffixes seg))) (segments body)"

text \<open>A name that holds none of the four characters of the cell syntax.\<close>

definition plain :: "pystr \<Rightarrow> bool" where
  "plain name =
     list_all (\<lambda>c. \<not> is_sep c \<and> c \<noteq> of_char CHR ''$'' \<and> c \<noteq> of_char CHR ''-'') name"

definition plain_names :: "dict \<Rightarrow> bool" where
  "plain_names m = (\<forall>k name. m k = Some name \<longrightarrow> plain name)"

text \<open>
  A segment whose identifier part has no empty piece between hyphens, or nothing but
  empty pieces.
\<close>

definition hyphens_regular :: "pystr \<Rightarrow> bool" where
  "hyphens_regular seg =
     (list_all (\<lambda>t. t \<noteq> []) (segment_id_pieces seg) \<or> list_all (\<lambda>t. t = []) (segment_id_pieces seg))"

section \<open>Basic facts\<close>

lemma str_split_not_Nil: "str_split sep s \<noteq> []"
  by (induction s) (auto split: list.splits)

lemma re_split_not_Nil: "re_split s \<noteq> []"
  by (induction s) (auto split: list.splits)

lemma map_token_loop_hit:
  "snd (map_token_loop cs ex dg token) \<Longrightarrow> fst (map_token_loop cs ex dg token) \<noteq> []"
  by (induction cs) auto

lemma map_token_loop_miss:
  "\<not> snd (map_token_loop cs ex dg token) \<Longrightarrow> fst (map_token_loop cs ex dg token) = token"
  by (induction cs) auto

lemma map_token_hit: "snd (map_token isdigit token ex dg) \<Longrightarrow> fst (map_token isdigit token ex dg) \<noteq> []"
  by (auto simp: map_token_def map_token_loop_hit split: if_splits)

lemma map_token_miss: "\<not> snd (map_token isdigit token ex dg) \<Longrightarrow> fst (map_token isdigit token ex dg) = token"
  by (auto simp: map_token_def map_token_loop_miss split: if_splits)

lemma transform_cell_ids_eq:
  "transform_cell_ids isdigit ts ex dg (mapped, u) =
     (mapped @ map (\<lambda>t. fst (map_token isdigit t ex dg)) ts,
      u + length (filter (\<lambda>t. \<not> snd (map_token isdigit t ex dg)) ts))"
  by (induction ts arbitrary: mapped u) (simp_all add: case_prod_beta)

lemma map_token_loop_lookups:
  "map_token_loop cs ex dg token =
     (case List.map_filter (\<lambda>r. r) (concat (map (\<lambda>c. [lookup_name ex c, lookup_name dg c]) cs)) of
        [] \<Rightarrow> (token, False) | name # _ \<Rightarrow> (name, True))"
  by (induction cs) (auto simp: lookup_name_def List.map_filter_simps split: option.splits)

section \<open>The resolver\<close>

text \<open>
  Claim C1. For every token and every pair of indexes, \<open>map_token\<close> is the
  multi-tier fallback of the specification: the exact index at the token itself; else,
  with \<open>d\<close> the digits of the token, the token unchanged and \<open>False\<close> when \<open>d\<close>
  is empty; else the candidates \<open>d\<close>, then (only for \<open>d\<close> of length 3 or 4)
  \<open>"66" + d\<close>, then \<open>"6" + d\<close>, the exact index looked up before the digits index
  for each, the first name found that is not empty returned with \<open>True\<close>, and the
  token unchanged with \<open>False\<close> when none is found.
\<close>

theorem map_token_resolve:
  "map_token isdigit token exact digits = resolve isdigit token exact digits"
proof (cases "lookup_name exact token")
  case (Some name)
  then show ?thesis
    by (auto simp: map_token_def resolve_def lookup_name_def split: option.splits if_splits)
next
  case None
  then have direct: "\<not> (exact token \<noteq> None \<and> the (exact token) \<noteq> [])"
    by (auto simp: lookup_name_def split: option.splits if_splits)
  show ?thesis
  proof (cases "filter isdigit token = []")
    case True
    with None direct show ?thesis
      by (simp add: map_token_def resolve_def digits_only_def map_token_candidates_def)
  next
    case False
    let ?d = "filter isdigit token"
    let ?cs = "if length ?d = 3 \<or> length ?d = 4 then [?d, ascii ''66'' @ ?d, ascii ''6'' @ ?d] else [?d]"
    have cands: "map_token_candidates ?d = ?cs"
      using False by (simp add: map_token_candidates_def)
    have lhs: "map_token isdigit token exact digits = map_token_loop ?cs exact digits token"
      unfolding map_token_def digits_only_def cands using direct by (rule if_not_P)
    have rhs: "resolve isdigit token exact digits =
        (case List.map_filter (\<lambda>r. r)
                (concat (map (\<lambda>c. [lookup_name exact c, lookup_name digits c]) ?cs)) of
           [] \<Rightarrow> (token, False) | name # _ \<Rightarrow> (name, True))"
      unfolding resolve_def Let_def using None False by simp
    show ?thesis
      unfolding lhs rhs by (rule map_token_loop_lookups)
  qed
qed

theorem map_token_resolve_witness:
  "map_token ascii_isdigit (ascii ''771'') (map_of [(ascii ''66771'', ascii ''BigAxe'')]) (map_of [])
     = (ascii ''BigAxe'', True)"
  using map_token_resolve [of ascii_isdigit "ascii ''771''"
      "map_of [(ascii ''66771'', ascii ''BigAxe'')]" "map_of []"]
  by (simp add: resolve_def lookup_name_def ascii_def ascii_isdigit_def List.map_filter_simps)

section \<open>The two files\<close>

lemma app_map_token_loop_eq: "app_map_token_loop cs ex dg token = map_token_loop cs ex dg token"
  by (induction cs) auto

lemma app_map_token_eq: "app_map_token isdigit token ex dg = map_token isdigit token ex dg"
  by (simp add: app_map_token_def map_token_def app_map_token_loop_eq app_digits_only_def
      digits_only_def map_token_candidates_def Let_def)

lemma app_to_text_eq: "app_to_text v = to_text v"
  by (cases v rule: to_text.cases) simp_all

lemma app_transform_cell_ids_fst:
  "(\<lambda>(m, u, a). (m, u)) (app_transform_cell_ids isdigit ts ex dg (mapped, u, acc)) =
     transform_cell_ids isdigit ts ex dg (mapped, u)"
  by (induction ts arbitrary: mapped u acc) (simp_all add: case_prod_beta app_map_token_eq)

lemma app_transform_cell_ids_None:
  "snd (snd (app_transform_cell_ids isdigit ts ex dg (mapped, u, None))) = None"
  by (induction ts arbitrary: mapped u) (simp_all add: case_prod_beta)

lemma app_transform_cell_loop_fst:
  "(\<lambda>(out, u, a). (out, u)) (app_transform_cell_loop isdigit tks ex dg (out, u, acc)) =
     transform_cell_loop isdigit tks ex dg (out, u)"
proof (induction tks arbitrary: out u acc)
  case Nil
  show ?case by simp
next
  case (Cons tk tks)
  show ?case
  proof (cases "tk = ascii ''&'' \<or> tk = ascii ''|'' \<or> tk = []")
    case True
    then show ?thesis using Cons.IH by auto
  next
    case False
    obtain m u' a' where r: "app_transform_cell_ids isdigit
        (filter (\<lambda>tok. tok \<noteq> []) (str_split (of_char CHR ''-'') (hd (str_split (of_char CHR ''$'') tk))))
        ex dg ([], u, acc) = (m, u', a')"
      by (cases "app_transform_cell_ids isdigit
        (filter (\<lambda>tok. tok \<noteq> []) (str_split (of_char CHR ''-'') (hd (str_split (of_char CHR ''$'') tk))))
        ex dg ([], u, acc)") auto
    from app_transform_cell_ids_fst [of isdigit _ ex dg "[]" u acc, unfolded r]
    have r': "transform_cell_ids isdigit
        (filter (\<lambda>tok. tok \<noteq> []) (str_split (of_char CHR ''-'') (hd (str_split (of_char CHR ''$'') tk))))
        ex dg ([], u) = (m, u')"
      using r by (metis (no_types, lifting) app_transform_cell_ids_fst case_prod_conv)
    from False show ?thesis
      using Cons.IH by (simp add: Let_def r r' del: of_char_Char)
  qed
qed

lemma app_transform_cell_loop_None:
  "snd (snd (app_transform_cell_loop isdigit tks ex dg (out, u, None))) = None"
proof (induction tks arbitrary: out u)
  case Nil
  show ?case by simp
next
  case (Cons tk tks)
  show ?case
  proof (cases "tk = ascii ''&'' \<or> tk = ascii ''|'' \<or> tk = []")
    case True
    then show ?thesis using Cons.IH by auto
  next
    case False
    obtain m u' a' where r: "app_transform_cell_ids isdigit
        (filter (\<lambda>tok. tok \<noteq> []) (str_split (of_char CHR ''-'') (hd (str_split (of_char CHR ''$'') tk))))
        ex dg ([], u, None) = (m, u', a')"
      by (cases "app_transform_cell_ids isdigit
        (filter (\<lambda>tok. tok \<noteq> []) (str_split (of_char CHR ''-'') (hd (str_split (of_char CHR ''$'') tk))))
        ex dg ([], u, None)") auto
    have "a' = None"
      using app_transform_cell_ids_None [of isdigit _ ex dg "[]" u] r by (metis snd_conv)
    with False r show ?thesis
      using Cons.IH by (simp add: Let_def del: of_char_Char)
  qed
qed

text \<open>
  Claim C8. For every input, \<open>transform_cell\<close> of webtool/app.py, called with no
  accumulator of unmatched tokens, returns the pair that \<open>transform_cell\<close> of
  map\_items.py returns (and leaves the accumulator \<open>None\<close>), and the two
  \<open>map_token\<close> agree on every token.
\<close>

theorem app_transform_cell_agrees:
  "fst (app_transform_cell isdigit isspace text keep_prefix prefix id_to_name id_to_name_digits None)
     = transform_cell isdigit isspace text keep_prefix prefix id_to_name id_to_name_digits
   \<and> snd (app_transform_cell isdigit isspace text keep_prefix prefix id_to_name id_to_name_digits None)
     = None
   \<and> app_map_token isdigit token id_to_name id_to_name_digits
     = map_token isdigit token id_to_name id_to_name_digits"
proof -
  let ?tokens = "re_split (let s = strip isspace (to_text text)
      in if startswith s prefix then drop (length prefix) s else s)"
  obtain out u a where r:
    "app_transform_cell_loop isdigit ?tokens id_to_name id_to_name_digits ([], 0, None) = (out, u, a)"
    by (cases "app_transform_cell_loop isdigit ?tokens id_to_name id_to_name_digits ([], 0, None)") auto
  have r': "transform_cell_loop isdigit ?tokens id_to_name id_to_name_digits ([], 0) = (out, u)"
    using app_transform_cell_loop_fst [of isdigit ?tokens id_to_name id_to_name_digits "[]" 0 None]
    by (simp add: r)
  have a: "a = None"
    using app_transform_cell_loop_None [of isdigit ?tokens id_to_name id_to_name_digits "[]" 0]
    by (simp add: r)
  show ?thesis
    using r r' a
    by (simp add: app_transform_cell_def transform_cell_def app_to_text_eq app_map_token_eq Let_def)
qed

theorem app_transform_cell_agrees_witness:
  "fst (app_transform_cell ascii_isdigit ascii_isspace (PyStr (ascii ''7|8'')) False item_prefix
          (map_of [(ascii ''7'', ascii ''Axe'')]) (map_of []) None)
     = (PyStr (ascii ''Axe|8''), 1)"
  using app_transform_cell_agrees [of ascii_isdigit ascii_isspace "PyStr (ascii ''7|8'')" False
      item_prefix "map_of [(ascii ''7'', ascii ''Axe'')]" "map_of []" "[]"]
  by (simp add: transform_cell_def strip_def startswith_def item_prefix_def ascii_def
      ascii_isspace_def ascii_isdigit_def Let_def map_token_def digits_only_def
      map_token_candidates_def)

section \<open>Resolved names, falsy cells, the worked scenario\<close>

text \<open>
  Claim C9. For every token and every pair of lookup maps, a name that
  \<open>map_token\<close> returns with \<open>matched = True\<close> is not the empty string; so in the
  list of mapped tokens that \<open>transform_cell\<close> joins, the slot of every identifier
  token that resolved holds a non-empty string.
\<close>

theorem map_token_name_nonempty:
  "(snd (map_token isdigit token id_to_name id_to_name_digits) \<longrightarrow>
      fst (map_token isdigit token id_to_name id_to_name_digits) \<noteq> [])
   \<and> (\<forall>i < length id_tokens.
        snd (map_token isdigit (id_tokens ! i) id_to_name id_to_name_digits) \<longrightarrow>
        fst (transform_cell_ids isdigit id_tokens id_to_name id_to_name_digits ([], unmatched)) ! i
          \<noteq> [])"
  by (simp add: transform_cell_ids_eq map_token_hit)

theorem map_token_name_nonempty_witness:
  "snd (map_token ascii_isdigit (ascii ''7'') (map_of [(ascii ''7'', ascii ''Axe'')]) (map_of []))
   \<and> fst (map_token ascii_isdigit (ascii ''7'') (map_of [(ascii ''7'', ascii ''Axe'')]) (map_of []))
       \<noteq> []
   \<and> fst (transform_cell_ids ascii_isdigit [ascii ''7'']
            (map_of [(ascii ''7'', ascii ''Axe'')]) (map_of []) ([], 0)) ! 0 \<noteq> []"
proof -
  have hit: "snd (map_token ascii_isdigit (ascii ''7'') (map_of [(ascii ''7'', ascii ''Axe'')]) (map_of []))"
    by (simp add: map_token_def ascii_def)
  from map_token_name_nonempty [of ascii_isdigit "ascii ''7''"
      "map_of [(ascii ''7'', ascii ''Axe'')]" "map_of []" "[ascii ''7'']" 0] hit
  show ?thesis by simp
qed

text \<open>
  Claim C10. For the falsy cell values (the empty string, \<open>None\<close>, the integer 0, the
  float 0.0) \<open>transform_cell\<close> of either file returns the value itself, not its
  text, with an unmatched count of 0, whatever \<open>keep_prefix\<close> and the prefix are.
\<close>

theorem transform_cell_falsy:
  "text \<in> {PyStr [], PyNone, PyInt 0, PyFloat (FloatIntegral 0)} \<Longrightarrow>
     transform_cell isdigit isspace text keep_prefix prefix id_to_name id_to_name_digits = (text, 0)
     \<and> app_transform_cell isdigit isspace text keep_prefix prefix id_to_name id_to_name_digits
         unmatched_acc = ((text, 0), unmatched_acc)"
  by (auto simp: transform_cell_def app_transform_cell_def)

theorem transform_cell_falsy_witness:
  "transform_cell ascii_isdigit ascii_isspace (PyInt 0) True item_prefix
      (map_of [(ascii ''0'', ascii ''Axe'')]) (map_of []) = (PyInt 0, 0)
   \<and> app_transform_cell ascii_isdigit ascii_isspace (PyInt 0) True item_prefix
      (map_of [(ascii ''0'', ascii ''Axe'')]) (map_of []) (Some []) = ((PyInt 0, 0), Some [])"
  using transform_cell_falsy [of "PyInt 0" ascii_isdigit ascii_isspace True item_prefix
      "map_of [(ascii ''0'', ascii ''Axe'')]" "map_of []" "Some []"]
  by simp

text \<open>
  Claim C2. With the mapping rows \<open>("101", "Sword")\<close>, \<open>("202", "Shield")\<close>, the
  prefix \<open>item_prefix\<close> and \<open>keep_prefix\<close> true, the cell
  \<open>item_prefix + "101-202$1&303$2"\<close> is rewritten to
  \<open>item_prefix + "Sword-Shield$1&303$2"\<close> with one unmatched token, which the
  accumulator of webtool/app.py records as \<open>"303"\<close>. The tables are any that know
  the digits 0 to 3 as digits and no character at an end of these strings as
  whitespace, as Python's do.
\<close>

theorem transform_cell_scenario:
  assumes digits: "list_all isdigit (ascii ''0123'')"
    and spaces: "list_all (\<lambda>c. \<not> isspace c) (item_prefix @ ascii ''12Sd'')"
  shows "(let (id_to_name, id_to_name_digits) =
            load_mapping isdigit isspace
              [(PyStr (ascii ''101''), PyStr (ascii ''Sword'')),
               (PyStr (ascii ''202''), PyStr (ascii ''Shield''))]
          in app_transform_cell isdigit isspace (PyStr (item_prefix @ ascii ''101-202$1&303$2''))
               True item_prefix (map_of id_to_name) (map_of id_to_name_digits) (Some [])
             = ((PyStr (item_prefix @ ascii ''Sword-Shield$1&303$2''), 1), Some [ascii ''303''])
           \<and> transform_cell isdigit isspace (PyStr (item_prefix @ ascii ''101-202$1&303$2''))
               True item_prefix (map_of id_to_name) (map_of id_to_name_digits)
             = (PyStr (item_prefix @ ascii ''Sword-Shield$1&303$2''), 1))"
proof -
  have d: "isdigit 48" "isdigit 49" "isdigit 50" "isdigit 51"
    using digits by (simp_all add: ascii_def)
  have s: "\<not> isspace 29289" "\<not> isspace 49" "\<not> isspace 50" "\<not> isspace 83" "\<not> isspace 100"
    using spaces by (simp_all add: ascii_def item_prefix_def)
  have lm: "load_mapping isdigit isspace
              [(PyStr (ascii ''101''), PyStr (ascii ''Sword'')),
               (PyStr (ascii ''202''), PyStr (ascii ''Shield''))]
        = ([(ascii ''101'', ascii ''Sword''), (ascii ''202'', ascii ''Shield'')],
           [(ascii ''101'', ascii ''Sword''), (ascii ''202'', ascii ''Shield'')])"
    using d s by (simp add: load_mapping_def strip_def digits_only_def ascii_def Let_def)
  have body: "cell_body isspace (PyStr (item_prefix @ ascii ''101-202$1&303$2'')) item_prefix
      = ascii ''101-202$1&303$2''"
    using s by (simp add: cell_body_def strip_def startswith_def item_prefix_def ascii_def)
  have app: "app_transform_cell isdigit isspace (PyStr (item_prefix @ ascii ''101-202$1&303$2''))
               True item_prefix
               (map_of [(ascii ''101'', ascii ''Sword''), (ascii ''202'', ascii ''Shield'')])
               (map_of [(ascii ''101'', ascii ''Sword''), (ascii ''202'', ascii ''Shield'')]) (Some [])
             = ((PyStr (item_prefix @ ascii ''Sword-Shield$1&303$2''), 1), Some [ascii ''303''])"
    using d s
    by (simp add: app_transform_cell_def strip_def startswith_def item_prefix_def ascii_def
        Let_def app_map_token_def app_digits_only_def)
  have cli: "transform_cell isdigit isspace (PyStr (item_prefix @ ascii ''101-202$1&303$2''))
               True item_prefix
               (map_of [(ascii ''101'', ascii ''Sword''), (ascii ''202'', ascii ''Shield'')])
               (map_of [(ascii ''101'', ascii ''Sword''), (ascii ''202'', ascii ''Shield'')])
             = (PyStr (item_prefix @ ascii ''Sword-Shield$1&303$2''), 1)"
    using d s
    by (simp add: transform_cell_def strip_def startswith_def item_prefix_def ascii_def
        Let_def map_token_def digits_only_def map_token_candidates_def)
  show ?thesis
    unfolding lm using app cli by simp
qed


theorem transform_cell_scenario_witness:
  "list_all ascii_isdigit (ascii ''0123'')
   \<and> list_all (\<lambda>c. \<not> ascii_isspace c) (item_prefix @ ascii ''12Sd'')
   \<and> transform_cell ascii_isdigit ascii_isspace (PyStr (item_prefix @ ascii ''101-202$1&303$2''))
         True item_prefix
         (map_of (fst (load_mapping ascii_isdigit ascii_isspace
            [(PyStr (ascii ''101''), PyStr (ascii ''Sword'')),
             (PyStr (ascii ''202''), PyStr (ascii ''Shield''))])))
         (map_of (snd (load_mapping ascii_isdigit ascii_isspace
            [(PyStr (ascii ''101''), PyStr (ascii ''Sword'')),
             (PyStr (ascii ''202''), PyStr (ascii ''Shield''))])))
       = (PyStr (item_prefix @ ascii ''Sword-Shield$1&303$2''), 1)"
proof -
  have d: "list_all ascii_isdigit (ascii ''0123'')"
    by (simp add: ascii_def ascii_isdigit_def)
  have s: "list_all (\<lambda>c. \<not> ascii_isspace c) (item_prefix @ ascii ''12Sd'')"
    by (simp add: ascii_def ascii_isspace_def item_prefix_def)
  from transform_cell_scenario [OF d s] d s show ?thesis
    by (simp add: case_prod_beta)
qed

section \<open>The indexes that load\_mapping builds\<close>

lemma map_token_loop_nonempty_entries:
  "map_token_loop cs (nonempty_entries ex) (nonempty_entries dg) token = map_token_loop cs ex dg token"
  by (induction cs) (auto simp: nonempty_entries_def)

lemma load_mapping_rows_append:
  "load_mapping_rows isspace (xs @ ys) acc = load_mapping_rows isspace ys (load_mapping_rows isspace xs acc)"
  by (induction xs arbitrary: acc) (auto simp: Let_def)

lemma load_mapping_rows_other:
  "list_all (\<lambda>r. strip isspace (to_text (fst r)) \<noteq> k) rows \<Longrightarrow>
     map_of (load_mapping_rows isspace rows acc) k = map_of acc k"
  by (induction rows arbitrary: acc) (auto simp: Let_def update_conv')

lemma update_fresh: "k \<notin> fst ` set al \<Longrightarrow> AList.update k v al = al @ [(k, v)]"
  by (induction al) auto

lemma load_mapping_rows_distinct:
  "distinct (map fst acc @ map fst (entries isspace rows)) \<Longrightarrow>
     load_mapping_rows isspace rows acc = acc @ entries isspace rows"
proof (induction rows arbitrary: acc)
  case Nil
  show ?case by (simp add: entries_def)
next
  case (Cons r rows)
  obtain v_id v_name where r: "r = (v_id, v_name)" by (cases r)
  let ?k = "strip isspace (to_text v_id)"
  let ?n = "strip isspace (to_text v_name)"
  show ?case
  proof (cases "?k = []")
    case True
    then have e: "entries isspace (r # rows) = entries isspace rows"
      by (simp add: entries_def r)
    note e' = e [unfolded r]
    from Cons.prems have "distinct (map fst acc @ map fst (entries isspace rows))"
      by (simp add: e)
    from Cons.IH [OF this] True show ?thesis
      by (simp add: r e')
  next
    case False
    then have e: "entries isspace (r # rows) = (?k, ?n) # entries isspace rows"
      by (simp add: entries_def r)
    note e' = e [unfolded r]
    from Cons.prems have fresh: "?k \<notin> fst ` set acc"
      by (auto simp: e)
    from Cons.prems have "distinct (map fst (acc @ [(?k, ?n)]) @ map fst (entries isspace rows))"
      by (auto simp: e)
    from Cons.IH [OF this] False show ?thesis
      by (simp add: r e' update_fresh [OF fresh])
  qed
qed

lemma load_mapping_digits_lookup:
  "d \<noteq> [] \<Longrightarrow>
     map_of (load_mapping_digits isdigit items acc) d =
       (case last_with_digits isdigit d items of None \<Rightarrow> map_of acc d | Some v \<Rightarrow> Some v)"
proof (induction items arbitrary: acc)
  case Nil
  show ?case by (simp add: last_with_digits_def)
next
  case (Cons kv items)
  obtain k v where kv: "kv = (k, v)" by (cases kv)
  show ?case
  proof (cases "digits_only isdigit k = d")
    case True
    with Cons.prems Cons.IH [OF Cons.prems] show ?thesis
      by (simp add: kv last_with_digits_def update_conv' split: list.splits)
  next
    case False
    with Cons.prems Cons.IH [OF Cons.prems] show ?thesis
      by (simp add: kv last_with_digits_def update_conv' split: list.splits)
  qed
qed

lemma app_load_mapping_rows_eq:
  "app_load_mapping_rows isspace rows acc = load_mapping_rows isspace rows acc"
  by (induction rows arbitrary: acc) (auto simp: Let_def app_to_text_eq)

lemma app_load_mapping_digits_eq:
  "app_load_mapping_digits isdigit items acc = load_mapping_digits isdigit items acc"
  by (induction items arbitrary: acc) (auto simp: app_digits_only_def digits_only_def)

lemma app_load_mapping_eq: "app_load_mapping isdigit isspace rows = load_mapping isdigit isspace rows"
  by (simp add: app_load_mapping_def load_mapping_def app_load_mapping_rows_eq
      app_load_mapping_digits_eq)

text \<open>
  Claim C3, as amended. The indexes that \<open>load_mapping\<close> builds can hold entries
  whose name is the empty string (the counterexample below: the row \<open>("101", "")\<close>
  is stored in both); it is \<open>map_token\<close> that passes over them, at every lookup:
  its result is the one it gives on the two indexes without their entries of empty
  name. A row of empty name overwrites the earlier rows of the same identifier, so that
  the exact index then holds the empty name for it.
\<close>

theorem map_token_ignores_empty_names:
  "map_token isdigit token id_to_name id_to_name_digits
     = map_token isdigit token (nonempty_entries id_to_name) (nonempty_entries id_to_name_digits)
   \<and> (strip isspace (to_text v_id) \<noteq> [] \<and> strip isspace (to_text v_name) = []
        \<and> list_all (\<lambda>r. strip isspace (to_text (fst r)) \<noteq> strip isspace (to_text v_id)) after
      \<longrightarrow> map_of (fst (load_mapping isdigit isspace (before @ (v_id, v_name) # after)))
            (strip isspace (to_text v_id)) = Some [])"
proof
  show "map_token isdigit token id_to_name id_to_name_digits
     = map_token isdigit token (nonempty_entries id_to_name) (nonempty_entries id_to_name_digits)"
    by (simp add: map_token_def map_token_loop_nonempty_entries)
      (auto simp: nonempty_entries_def)
next
  show "strip isspace (to_text v_id) \<noteq> [] \<and> strip isspace (to_text v_name) = []
        \<and> list_all (\<lambda>r. strip isspace (to_text (fst r)) \<noteq> strip isspace (to_text v_id)) after
      \<longrightarrow> map_of (fst (load_mapping isdigit isspace (before @ (v_id, v_name) # after)))
            (strip isspace (to_text v_id)) = Some []"
    by (simp add: load_mapping_def Let_def load_mapping_rows_append load_mapping_rows_other
        update_conv')
qed

theorem map_token_ignores_empty_names_witness:
  "map_of (fst (load_mapping ascii_isdigit ascii_isspace
       [(PyStr (ascii ''101''), PyStr (ascii ''Sword'')), (PyStr (ascii ''101''), PyStr [])]))
     (ascii ''101'') = Some []
   \<and> map_token ascii_isdigit (ascii ''101'')
       (nonempty_entries (map_of [(ascii ''101'', [])])) (nonempty_entries (map_of [(ascii ''101'', [])]))
     = (ascii ''101'', False)
   \<and> map_token ascii_isdigit (ascii ''101'') (map_of [(ascii ''101'', [])]) (map_of [(ascii ''101'', [])])
     = (ascii ''101'', False)"
proof -
  have s: "strip ascii_isspace (ascii ''101'') = ascii ''101''" "strip ascii_isspace [] = []"
    by (simp_all add: strip_def ascii_def ascii_isspace_def)
  have m: "map_token ascii_isdigit (ascii ''101'')
       (nonempty_entries (map_of [(ascii ''101'', [])])) (nonempty_entries (map_of [(ascii ''101'', [])]))
     = (ascii ''101'', False)"
    by (simp add: map_token_def nonempty_entries_def digits_only_def map_token_candidates_def
        ascii_def ascii_isdigit_def)
  have ne: "ascii ''101'' \<noteq> []"
    by (simp add: ascii_def)
  from map_token_ignores_empty_names [of ascii_isdigit "ascii ''101''"
      "map_of [(ascii ''101'', [])]" "map_of [(ascii ''101'', [])]" ascii_isspace
      "PyStr (ascii ''101'')" "PyStr []" "[]" "[(PyStr (ascii ''101''), PyStr (ascii ''Sword''))]"]
  show ?thesis using s m ne by simp
qed

theorem load_mapping_empty_names_counterexample:
  "load_mapping ascii_isdigit ascii_isspace [(PyStr (ascii ''101''), PyStr [])]
     = ([(ascii ''101'', [])], [(ascii ''101'', [])])"
  by (simp add: load_mapping_def Let_def strip_def digits_only_def ascii_def ascii_isdigit_def
      ascii_isspace_def)

text \<open>
  Claim C4, as amended. The digits index is built from the finished exact index, in
  the order of its keys, which is the order of their first insertion: a digit string
  that is not empty is mapped to the name that the exact index holds for the last of
  its keys with these digits. When no identifier occurs in two rows this is the name of
  the last row whose identifier has these digits; when one does, a later row may lose
  (the counterexample below). webtool/app.py builds the same pair of indexes.
\<close>

theorem load_mapping_digits_last:
  "app_load_mapping isdigit isspace rows = load_mapping isdigit isspace rows
   \<and> (d \<noteq> [] \<longrightarrow>
     map_of (snd (load_mapping isdigit isspace rows)) d
       = last_with_digits isdigit d (fst (load_mapping isdigit isspace rows))
     \<and> (distinct (map fst (entries isspace rows)) \<longrightarrow>
          map_of (snd (load_mapping isdigit isspace rows)) d
            = last_with_digits isdigit d (entries isspace rows)))"
proof (intro impI conjI)
  show "app_load_mapping isdigit isspace rows = load_mapping isdigit isspace rows"
    by (rule app_load_mapping_eq)
next
  assume d: "d \<noteq> []"
  show g: "map_of (snd (load_mapping isdigit isspace rows)) d
       = last_with_digits isdigit d (fst (load_mapping isdigit isspace rows))"
    using load_mapping_digits_lookup [OF d, of isdigit "load_mapping_rows isspace rows []" "[]"]
    by (simp add: load_mapping_def Let_def split: option.splits)
  assume "distinct (map fst (entries isspace rows))"
  then have "fst (load_mapping isdigit isspace rows) = entries isspace rows"
    using load_mapping_rows_distinct [of "[]" isspace rows] by (simp add: load_mapping_def Let_def)
  with g show "map_of (snd (load_mapping isdigit isspace rows)) d
            = last_with_digits isdigit d (entries isspace rows)"
    by simp
qed

theorem load_mapping_digits_last_witness:
  "map_of (snd (load_mapping ascii_isdigit ascii_isspace
       [(PyStr (ascii ''A1''), PyStr (ascii ''x'')), (PyStr (ascii ''B1''), PyStr (ascii ''y''))]))
     (ascii ''1'') = Some (ascii ''y'')"
proof -
  let ?rows = "[(PyStr (ascii ''A1''), PyStr (ascii ''x'')), (PyStr (ascii ''B1''), PyStr (ascii ''y''))]"
  have e: "entries ascii_isspace ?rows = [(ascii ''A1'', ascii ''x''), (ascii ''B1'', ascii ''y'')]"
    by (simp add: entries_def strip_def ascii_def ascii_isspace_def)
  have dist: "distinct (map fst (entries ascii_isspace ?rows))"
    unfolding e by (simp add: ascii_def)
  have l: "last_with_digits ascii_isdigit (ascii ''1'') (entries ascii_isspace ?rows) = Some (ascii ''y'')"
    unfolding e by (simp add: last_with_digits_def digits_only_def ascii_def ascii_isdigit_def)
  have d: "ascii ''1'' \<noteq> []" by (simp add: ascii_def)
  from load_mapping_digits_last [of ascii_isdigit ascii_isspace ?rows "ascii ''1''"] d dist
  have "map_of (snd (load_mapping ascii_isdigit ascii_isspace ?rows)) (ascii ''1'')
      = last_with_digits ascii_isdigit (ascii ''1'') (entries ascii_isspace ?rows)"
    by blast
  then show ?thesis unfolding l .
qed

theorem load_mapping_digits_counterexample:
  "map_of (snd (load_mapping ascii_isdigit ascii_isspace
       [(PyStr (ascii ''A1''), PyStr (ascii ''x'')), (PyStr (ascii ''1''), PyStr (ascii ''y'')),
        (PyStr (ascii ''A1''), PyStr (ascii ''z''))])) (ascii ''1'') = Some (ascii ''y'')
   \<and> last_with_digits ascii_isdigit (ascii ''1'') (entries ascii_isspace
       [(PyStr (ascii ''A1''), PyStr (ascii ''x'')), (PyStr (ascii ''1''), PyStr (ascii ''y'')),
        (PyStr (ascii ''A1''), PyStr (ascii ''z''))]) = Some (ascii ''z'')"
  by (simp add: load_mapping_def Let_def strip_def digits_only_def ascii_def ascii_isdigit_def
      ascii_isspace_def entries_def last_with_digits_def)

section \<open>Rewriting a cell\<close>

subsection \<open>Splitting and joining\<close>

lemma concat_re_split: "concat (re_split s) = s"
  by (induction s) (auto split: list.splits)

lemma re_split_sep_free: "list_all (\<lambda>c. \<not> is_sep c) p \<Longrightarrow> re_split p = [p]"
  by (induction p) (auto simp: is_sep_def)

lemma re_split_append:
  "list_all (\<lambda>c. \<not> is_sep c) p \<Longrightarrow> is_sep c \<Longrightarrow> re_split (p @ c # rest) = p # [c] # re_split rest"
  by (induction p) (auto simp: is_sep_def)

lemma body_induct [consumes 0, case_names piece sep]:
  assumes piece: "\<And>p. list_all (\<lambda>c. \<not> is_sep c) p \<Longrightarrow> P p"
    and sep: "\<And>p c rest. list_all (\<lambda>c. \<not> is_sep c) p \<Longrightarrow> is_sep c \<Longrightarrow> P rest \<Longrightarrow> P (p @ c # rest)"
  shows "P body"
proof (induction body rule: length_induct)
  case (1 body)
  let ?p = "takeWhile (\<lambda>c. \<not> is_sep c) body"
  let ?r = "dropWhile (\<lambda>c. \<not> is_sep c) body"
  have p: "list_all (\<lambda>c. \<not> is_sep c) ?p"
    by (auto simp: list_all_iff dest: set_takeWhileD)
  have split: "body = ?p @ ?r" by simp
  show ?case
  proof (cases ?r)
    case Nil
    with split have "body = ?p" by simp
    with piece [OF p] show ?thesis by simp
  next
    case (Cons c rest)
    have c: "is_sep c"
      using Cons hd_dropWhile [of "\<lambda>c. \<not> is_sep c" body] by auto
    have "length rest < length body"
      using arg_cong [OF split, of length] Cons by simp
    with 1 have "P rest" by blast
    from sep [OF p c this] split Cons show ?thesis by simp
  qed
qed

lemma sep_token_iff: "(tk = ascii ''&'' \<or> tk = ascii ''|'') = (\<exists>c. tk = [c] \<and> is_sep c)"
  by (auto simp: ascii_def is_sep_def)

lemma sep_free_not_token: "list_all (\<lambda>c. \<not> is_sep c) p \<Longrightarrow> \<not> (p = ascii ''&'' \<or> p = ascii ''|'')"
  by (auto simp: ascii_def is_sep_def)

lemma re_split_separators:
  "filter (\<lambda>tk. tk = ascii ''&'' \<or> tk = ascii ''|'') (re_split body) = map (\<lambda>c. [c]) (filter is_sep body)"
proof (induction body rule: body_induct)
  case (piece p)
  then have "filter is_sep p = []"
    by (induction p) auto
  with piece show ?case
    by (simp add: re_split_sep_free sep_free_not_token)
next
  case (sep p c rest)
  then have "filter is_sep p = []"
    by (induction p) auto
  moreover have "[c] = ascii ''&'' \<or> [c] = ascii ''|''"
    using sep(2) by (simp add: sep_token_iff)
  ultimately show ?case
    using sep by (simp add: re_split_append sep_free_not_token)
qed

lemma str_split_sep_free: "sep \<notin> set p \<Longrightarrow> str_split sep p = [p]"
  by (induction p) auto

lemma str_split_append: "sep \<notin> set p \<Longrightarrow> str_split sep (p @ sep # rest) = p # str_split sep rest"
  by (induction p) auto

lemma str_split_pieces_all: "\<forall>p \<in> set (str_split sep s). sep \<notin> set p \<and> set p \<subseteq> set s"
  by (induction s) (auto split: list.splits)

lemma str_split_pieces: "p \<in> set (str_split sep s) \<Longrightarrow> sep \<notin> set p \<and> set p \<subseteq> set s"
  using str_split_pieces_all by blast

lemma str_join_Cons: "str_join sep (x # xs) = x @ (if xs \<noteq> [] then sep @ str_join sep xs else [])"
  by (cases xs) auto

lemma str_join_split: "str_join [sep] (str_split sep s) = s"
  by (induction s) (auto simp: str_join_Cons str_split_not_Nil split: list.splits)

lemma str_split_join:
  "xs \<noteq> [] \<Longrightarrow> \<forall>x \<in> set xs. sep \<notin> set x \<Longrightarrow> str_split sep (str_join [sep] xs) = xs"
proof (induction xs)
  case Nil
  then show ?case by simp
next
  case (Cons x xs)
  show ?case
  proof (cases "xs = []")
    case True
    with Cons.prems show ?thesis by (simp add: str_split_sep_free)
  next
    case False
    with Cons show ?thesis
      by (simp add: str_join_Cons str_split_append)
  qed
qed

subsection \<open>The loops in closed form\<close>

lemma transform_segment_eq:
  "transform_segment isdigit ex dg seg =
     ((if segment_id_tokens seg \<noteq> []
       then str_join (ascii ''-'') (map (\<lambda>t. fst (map_token isdigit t ex dg)) (segment_id_tokens seg))
       else hd (str_split (of_char CHR ''$'') seg))
      @ (if segment_suffixes seg \<noteq> []
         then ascii ''$'' @ str_join (ascii ''$'') (segment_suffixes seg) else []),
      length (filter (\<lambda>t. \<not> snd (map_token isdigit t ex dg)) (segment_id_tokens seg)))"
  by (simp add: transform_segment_def Let_def transform_cell_ids_eq segment_id_tokens_def
      segment_id_pieces_def segment_suffixes_def del: of_char_Char)

lemma transform_segment_Nil: "transform_segment isdigit ex dg [] = ([], 0)"
  by (simp add: transform_segment_eq segment_id_tokens_def segment_id_pieces_def
      segment_suffixes_def)

lemma sep_token_not_Nil: "tk = ascii ''&'' \<or> tk = ascii ''|'' \<Longrightarrow> tk \<noteq> []"
  by (auto simp: ascii_def)

lemma transform_cell_loop_step:
  "\<not> (tk = ascii ''&'' \<or> tk = ascii ''|'') \<Longrightarrow> tk \<noteq> [] \<Longrightarrow>
     transform_cell_loop isdigit (tk # tks) ex dg (out, u) =
       transform_cell_loop isdigit tks ex dg
         (out @ [fst (transform_segment isdigit ex dg tk)], u + snd (transform_segment isdigit ex dg tk))"
  by (simp add: Let_def transform_segment_def transform_cell_ids_eq del: of_char_Char)

lemma transform_cell_loop_out:
  "concat (fst (transform_cell_loop isdigit tks ex dg (out, u))) =
     concat out @ concat (map (rewrite_token isdigit ex dg) tks)"
proof (induction tks arbitrary: out u)
  case Nil
  show ?case by simp
next
  case (Cons tk tks)
  consider (sep) "tk = ascii ''&'' \<or> tk = ascii ''|''" | (empty) "tk = []"
    | (seg) "\<not> (tk = ascii ''&'' \<or> tk = ascii ''|'')" "tk \<noteq> []"
    by blast
  then show ?case
  proof cases
    case sep
    then show ?thesis
      using Cons.IH [of "out @ [tk]" u] by (auto simp: rewrite_token_def)
  next
    case empty
    then show ?thesis
      using Cons.IH [of out u] by (simp add: rewrite_token_def transform_segment_Nil ascii_def)
  next
    case seg
    then show ?thesis
      using Cons.IH
      by (simp add: transform_cell_loop_step rewrite_token_def del: transform_cell_loop.simps)
  qed
qed

lemma transform_cell_loop_count:
  "snd (transform_cell_loop isdigit tks ex dg (out, u)) =
     u + sum_list (map (\<lambda>seg. snd (transform_segment isdigit ex dg seg))
           (filter (\<lambda>tk. \<not> (tk = ascii ''&'' \<or> tk = ascii ''|'') \<and> tk \<noteq> []) tks))"
proof (induction tks arbitrary: out u)
  case Nil
  show ?case by simp
next
  case (Cons tk tks)
  consider (sep) "tk = ascii ''&'' \<or> tk = ascii ''|''" | (empty) "tk = []"
    | (seg) "\<not> (tk = ascii ''&'' \<or> tk = ascii ''|'')" "tk \<noteq> []"
    by blast
  then show ?case
  proof cases
    case sep
    then show ?thesis
      using Cons.IH [of "out @ [tk]" u] by auto
  next
    case empty
    then show ?thesis
      using Cons.IH [of out u] by (simp add: ascii_def)
  next
    case seg
    then show ?thesis
      using Cons.IH by (simp add: transform_cell_loop_step del: transform_cell_loop.simps)
  qed
qed

lemma transform_cell_eq:
  "truthy text \<Longrightarrow>
     transform_cell isdigit isspace text keep_prefix prefix ex dg =
       (PyStr ((if keep_prefix then prefix else []) @
               concat (map (rewrite_token isdigit ex dg) (re_split (cell_body isspace text prefix)))),
        sum_list (map (\<lambda>seg. snd (transform_segment isdigit ex dg seg))
          (segments (cell_body isspace text prefix))))"
proof -
  assume t: "truthy text"
  let ?tokens = "re_split (cell_body isspace text prefix)"
  obtain out u where r: "transform_cell_loop isdigit ?tokens ex dg ([], 0) = (out, u)"
    by (cases "transform_cell_loop isdigit ?tokens ex dg ([], 0)") auto
  have o: "concat out = concat (map (rewrite_token isdigit ex dg) ?tokens)"
    using transform_cell_loop_out [of isdigit ?tokens ex dg "[]" 0] by (simp add: r)
  have c: "u = sum_list (map (\<lambda>seg. snd (transform_segment isdigit ex dg seg))
          (segments (cell_body isspace text prefix)))"
    using transform_cell_loop_count [of isdigit ?tokens ex dg "[]" 0] by (simp add: r segments_def)
  have "transform_cell isdigit isspace text keep_prefix prefix ex dg =
      (PyStr (if keep_prefix then prefix @ concat out else concat out), u)"
    using t r by (simp add: transform_cell_def cell_body_def Let_def)
  then show ?thesis
    unfolding o c by simp
qed

subsection \<open>Separators\<close>

lemma rewrite_token_sep: "is_sep c \<Longrightarrow> rewrite_token isdigit ex dg [c] = [c]"
  by (simp add: rewrite_token_def sep_token_iff)

text \<open>
  Claim C5. Tokenization keeps every \<open>&\<close> and \<open>|\<close> of the body as an element of
  its own at its place: a piece without separator is one token, a separator after such
  a piece follows it as a one-character token, and so on through the rest; the tokens
  concatenate to the body, and the separator tokens are the separator characters of
  the body in their order, \<open>&\<close> and \<open>|\<close> each as itself. Reassembly concatenates
  the tokens in order, every separator token unchanged and every other token replaced
  by its rewriting, behind the prefix when it is kept.
\<close>

theorem separators_kept:
  "(list_all (\<lambda>c. \<not> is_sep c) p \<longrightarrow> re_split p = [p])
   \<and> (list_all (\<lambda>c. \<not> is_sep c) p \<and> is_sep c \<longrightarrow> re_split (p @ c # rest) = p # [c] # re_split rest)
   \<and> concat (re_split body) = body
   \<and> filter (\<lambda>tk. tk = ascii ''&'' \<or> tk = ascii ''|'') (re_split body)
       = map (\<lambda>c. [c]) (filter is_sep body)
   \<and> (is_sep c \<longrightarrow> rewrite_token isdigit id_to_name id_to_name_digits [c] = [c])
   \<and> (truthy text \<longrightarrow>
        fst (transform_cell isdigit isspace text keep_prefix prefix id_to_name id_to_name_digits)
          = PyStr ((if keep_prefix then prefix else []) @
                   concat (map (rewrite_token isdigit id_to_name id_to_name_digits)
                             (re_split (cell_body isspace text prefix)))))"
  by (simp add: re_split_sep_free re_split_append concat_re_split re_split_separators
      transform_cell_eq rewrite_token_sep)

theorem separators_kept_witness:
  "re_split (ascii ''7|8&9'') = [ascii ''7'', ascii ''|'', ascii ''8'', ascii ''&'', ascii ''9'']
   \<and> fst (transform_cell ascii_isdigit ascii_isspace (PyStr (ascii ''7|8&9'')) False item_prefix
        (map_of [(ascii ''7'', ascii ''Axe''), (ascii ''9'', ascii ''Bow'')]) (map_of []))
     = PyStr (ascii ''Axe|8&Bow'')"
proof -
  have b: "cell_body ascii_isspace (PyStr (ascii ''7|8&9'')) item_prefix = ascii ''7|8&9''"
    by (simp add: cell_body_def strip_def startswith_def item_prefix_def ascii_def ascii_isspace_def)
  have r: "re_split (ascii ''7|8&9'') = [ascii ''7'', ascii ''|'', ascii ''8'', ascii ''&'', ascii ''9'']"
    by (simp add: ascii_def)
  have m: "map (rewrite_token ascii_isdigit
        (map_of [(ascii ''7'', ascii ''Axe''), (ascii ''9'', ascii ''Bow'')]) (map_of []))
        [ascii ''7'', ascii ''|'', ascii ''8'', ascii ''&'', ascii ''9'']
      = [ascii ''Axe'', ascii ''|'', ascii ''8'', ascii ''&'', ascii ''Bow'']"
    by (simp add: rewrite_token_def transform_segment_def Let_def map_token_def digits_only_def
        map_token_candidates_def ascii_def ascii_isdigit_def)
  have t: "truthy (PyStr (ascii ''7|8&9''))"
    by (simp add: ascii_def)
  from separators_kept [of "[]" "of_char CHR ''&''" "[]" "[]" ascii_isdigit
      "map_of [(ascii ''7'', ascii ''Axe''), (ascii ''9'', ascii ''Bow'')]" "map_of []"
      "PyStr (ascii ''7|8&9'')" ascii_isspace False item_prefix] t
  have "fst (transform_cell ascii_isdigit ascii_isspace (PyStr (ascii ''7|8&9'')) False item_prefix
        (map_of [(ascii ''7'', ascii ''Axe''), (ascii ''9'', ascii ''Bow'')]) (map_of []))
     = PyStr (concat (map (rewrite_token ascii_isdigit
          (map_of [(ascii ''7'', ascii ''Axe''), (ascii ''9'', ascii ''Bow'')]) (map_of []))
          (re_split (cell_body ascii_isspace (PyStr (ascii ''7|8&9'')) item_prefix))))"
    by simp
  then show ?thesis
    unfolding b r m by (simp add: ascii_def)
qed

subsection \<open>Cells without a known identifier\<close>

lemma dash_ascii: "ascii ''-'' = [of_char CHR ''-'']" and dollar_ascii: "ascii ''$'' = [of_char CHR ''$'']"
  by (simp_all add: ascii_def)

lemma segment_rejoin:
  "hd (str_split (of_char CHR ''$'') seg) @
     (if segment_suffixes seg \<noteq> []
      then ascii ''$'' @ str_join (ascii ''$'') (segment_suffixes seg) else []) = seg"
proof -
  let ?parts = "str_split (of_char CHR ''$'') seg"
  have "?parts = hd ?parts # tl ?parts"
    by (simp add: str_split_not_Nil)
  then have "str_join (ascii ''$'') ?parts =
      hd ?parts @ (if tl ?parts \<noteq> [] then ascii ''$'' @ str_join (ascii ''$'') (tl ?parts) else [])"
    by (metis str_join_Cons)
  then show ?thesis
    unfolding segment_suffixes_def dollar_ascii by (simp only: str_join_split)
qed

lemma transform_segment_unmapped:
  assumes reg: "hyphens_regular seg"
    and miss: "list_all (\<lambda>t. \<not> snd (map_token isdigit t ex dg)) (segment_id_tokens seg)"
  shows "transform_segment isdigit ex dg seg = (seg, length (segment_id_tokens seg))"
proof -
  let ?ids = "segment_id_tokens seg"
  let ?ids_part = "hd (str_split (of_char CHR ''$'') seg)"
  have same: "map (\<lambda>t. fst (map_token isdigit t ex dg)) ?ids = ?ids"
    using miss by (simp add: list_all_iff map_token_miss map_idI)
  have count: "length (filter (\<lambda>t. \<not> snd (map_token isdigit t ex dg)) ?ids) = length ?ids"
    using miss by (simp add: list_all_iff)
  have ids: "(if ?ids \<noteq> [] then str_join (ascii ''-'') ?ids else ?ids_part) = ?ids_part"
  proof (cases "?ids = []")
    case True
    then show ?thesis by simp
  next
    case False
    then have "\<not> list_all (\<lambda>t. t = []) (segment_id_pieces seg)"
      by (auto simp: segment_id_tokens_def list_all_iff filter_empty_conv)
    with reg have "list_all (\<lambda>t. t \<noteq> []) (segment_id_pieces seg)"
      by (simp add: hyphens_regular_def)
    then have "?ids = segment_id_pieces seg"
      by (simp add: segment_id_tokens_def list_all_iff)
    then have "str_join (ascii ''-'') ?ids = ?ids_part"
      unfolding dash_ascii by (simp only: segment_id_pieces_def str_join_split)
    with False show ?thesis by simp
  qed
  show ?thesis
    unfolding transform_segment_eq same count ids segment_rejoin ..
qed

lemma rewrite_token_unmapped:
  assumes "tk \<in> set (re_split body)"
    and reg: "list_all hyphens_regular (segments body)"
    and miss: "list_all (\<lambda>t. \<not> snd (map_token isdigit t ex dg)) (cell_id_tokens body)"
  shows "rewrite_token isdigit ex dg tk = tk"
proof (cases "tk = ascii ''&'' \<or> tk = ascii ''|'' \<or> tk = []")
  case True
  then show ?thesis
    by (auto simp: rewrite_token_def transform_segment_Nil)
next
  case False
  with assms(1) have seg: "tk \<in> set (segments body)"
    by (simp add: segments_def)
  with reg have r: "hyphens_regular tk"
    by (simp add: list_all_iff)
  from seg miss have m: "list_all (\<lambda>t. \<not> snd (map_token isdigit t ex dg)) (segment_id_tokens tk)"
    by (auto simp: cell_id_tokens_def list_all_iff)
  from False show ?thesis
    by (simp add: rewrite_token_def transform_segment_unmapped [OF r m])
qed

lemma count_unmapped:
  assumes reg: "list_all hyphens_regular (segments body)"
    and miss: "list_all (\<lambda>t. \<not> snd (map_token isdigit t ex dg)) (cell_id_tokens body)"
  shows "sum_list (map (\<lambda>seg. snd (transform_segment isdigit ex dg seg)) (segments body))
       = length (cell_id_tokens body)"
proof -
  have "map (\<lambda>seg. snd (transform_segment isdigit ex dg seg)) (segments body)
      = map (\<lambda>seg. length (segment_id_tokens seg)) (segments body)"
  proof (rule map_cong [OF refl])
    fix seg assume seg: "seg \<in> set (segments body)"
    with reg have r: "hyphens_regular seg"
      by (simp add: list_all_iff)
    from seg miss have m: "list_all (\<lambda>t. \<not> snd (map_token isdigit t ex dg)) (segment_id_tokens seg)"
      by (auto simp: cell_id_tokens_def list_all_iff)
    show "snd (transform_segment isdigit ex dg seg) = length (segment_id_tokens seg)"
      by (simp add: transform_segment_unmapped [OF r m])
  qed
  then have "sum_list (map (\<lambda>seg. snd (transform_segment isdigit ex dg seg)) (segments body))
      = sum_list (map (\<lambda>seg. length (segment_id_tokens seg)) (segments body))"
    by (rule arg_cong)
  also have "\<dots> = length (cell_id_tokens body)"
    by (simp add: cell_id_tokens_def length_concat comp_def)
  finally show ?thesis .
qed

text \<open>
  Claim C7, as amended. For every pair of indexes and every truthy cell none of whose
  identifier tokens the indexes resolve, and in each of whose segments the identifier
  part has no empty piece between hyphens (or only empty pieces), \<open>transform_cell\<close>
  returns the body, behind the prefix when it is kept, and counts as unmatched the
  identifier tokens of the body. Without the condition on hyphens the text can change
  (the counterexample below): the empty pieces are dropped before the join.
\<close>

theorem transform_cell_unmapped:
  assumes "truthy text"
    and "list_all hyphens_regular (segments (cell_body isspace text prefix))"
    and "list_all (\<lambda>t. \<not> snd (map_token isdigit t id_to_name id_to_name_digits))
           (cell_id_tokens (cell_body isspace text prefix))"
  shows "transform_cell isdigit isspace text keep_prefix prefix id_to_name id_to_name_digits
       = (PyStr ((if keep_prefix then prefix else []) @ cell_body isspace text prefix),
          length (cell_id_tokens (cell_body isspace text prefix)))"
proof -
  let ?body = "cell_body isspace text prefix"
  have "map (rewrite_token isdigit id_to_name id_to_name_digits) (re_split ?body) = re_split ?body"
    using rewrite_token_unmapped [OF _ assms(2,3)] by (simp add: map_idI)
  then show ?thesis
    by (simp add: transform_cell_eq [OF assms(1)] count_unmapped [OF assms(2,3)] concat_re_split)
qed

theorem transform_cell_unmapped_witness:
  "transform_cell ascii_isdigit ascii_isspace (PyStr (item_prefix @ ascii ''7-8$2|9'')) True item_prefix
      (map_of [(ascii ''5'', ascii ''Axe'')]) (map_of [])
     = (PyStr (item_prefix @ ascii ''7-8$2|9''), 3)"
proof -
  let ?text = "PyStr (item_prefix @ ascii ''7-8$2|9'')"
  have b: "cell_body ascii_isspace ?text item_prefix = ascii ''7-8$2|9''"
    by (simp add: cell_body_def strip_def startswith_def item_prefix_def ascii_def ascii_isspace_def)
  have sg: "segments (ascii ''7-8$2|9'') = [ascii ''7-8$2'', ascii ''9'']"
    by (simp add: segments_def ascii_def)
  have ids: "cell_id_tokens (ascii ''7-8$2|9'') = [ascii ''7'', ascii ''8'', ascii ''9'']"
    by (simp add: cell_id_tokens_def sg) (simp add: segment_id_tokens_def segment_id_pieces_def ascii_def)
  have t: "truthy ?text"
    by (simp add: item_prefix_def)
  have reg: "list_all hyphens_regular (segments (cell_body ascii_isspace ?text item_prefix))"
    unfolding b sg by (simp add: hyphens_regular_def segment_id_pieces_def ascii_def)
  have miss: "list_all (\<lambda>t. \<not> snd (map_token ascii_isdigit t (map_of [(ascii ''5'', ascii ''Axe'')]) (map_of [])))
      (cell_id_tokens (cell_body ascii_isspace ?text item_prefix))"
    unfolding b ids
    by (simp add: map_token_def digits_only_def map_token_candidates_def ascii_def ascii_isdigit_def)
  from transform_cell_unmapped [OF t reg miss, of True] show ?thesis
    unfolding b ids by simp
qed

theorem transform_cell_unmapped_counterexample:
  "transform_cell ascii_isdigit ascii_isspace (PyStr (ascii ''1--2'')) False item_prefix
      (map_of []) (map_of []) = (PyStr (ascii ''1-2''), 2)
   \<and> cell_body ascii_isspace (PyStr (ascii ''1--2'')) item_prefix = ascii ''1--2''"
  by (simp add: transform_cell_def cell_body_def strip_def startswith_def item_prefix_def Let_def
      map_token_def digits_only_def map_token_candidates_def ascii_def ascii_isdigit_def
      ascii_isspace_def)

subsection \<open>The shape of the segments\<close>

lemma set_str_join: "set (str_join sep xs) \<subseteq> set sep \<union> (\<Union>x \<in> set xs. set x)"
  by (induction sep xs rule: str_join.induct) auto

lemma str_join_not_Nil: "xs \<noteq> [] \<Longrightarrow> \<forall>x \<in> set xs. x \<noteq> [] \<Longrightarrow> str_join sep xs \<noteq> []"
  by (cases xs) (auto simp: str_join_Cons)

lemma map_token_loop_plain:
  "plain_names ex \<Longrightarrow> plain_names dg \<Longrightarrow> plain token \<Longrightarrow> plain (fst (map_token_loop cs ex dg token))"
  by (induction cs) (auto simp: plain_names_def)

lemma map_token_plain:
  "plain_names ex \<Longrightarrow> plain_names dg \<Longrightarrow> plain token \<Longrightarrow> plain (fst (map_token isdigit token ex dg))"
  by (auto simp: map_token_def map_token_loop_plain) (auto simp: plain_names_def)

lemma map_token_not_Nil: "token \<noteq> [] \<Longrightarrow> fst (map_token isdigit token ex dg) \<noteq> []"
  by (cases "snd (map_token isdigit token ex dg)") (simp_all add: map_token_hit map_token_miss)

lemma transform_segment_shape:
  assumes ex: "plain_names ex" and dg: "plain_names dg"
    and sf: "list_all (\<lambda>c. \<not> is_sep c) seg"
  shows "list_all (\<lambda>c. \<not> is_sep c) (fst (transform_segment isdigit ex dg seg))
    \<and> segment_suffixes (fst (transform_segment isdigit ex dg seg)) = segment_suffixes seg
    \<and> length (segment_id_tokens (fst (transform_segment isdigit ex dg seg)))
        = length (segment_id_tokens seg)
    \<and> (seg \<noteq> [] \<longrightarrow> fst (transform_segment isdigit ex dg seg) \<noteq> [])"
proof -
  define D :: pychar where "D = of_char CHR ''$''"
  define H :: pychar where "H = of_char CHR ''-''"
  define parts where "parts = str_split D seg"
  define ids_part where "ids_part = hd parts"
  define suf where "suf = tl parts"
  define ids where "ids = filter (\<lambda>t. t \<noteq> []) (str_split H ids_part)"
  define mapped where "mapped = map (\<lambda>t. fst (map_token isdigit t ex dg)) ids"
  define new_ids where "new_ids = (if ids \<noteq> [] then str_join [H] mapped else ids_part)"
  define new_seg where "new_seg = new_ids @ (if suf \<noteq> [] then [D] @ str_join [D] suf else [])"
  have DH: "\<not> is_sep D" "\<not> is_sep H" "D \<noteq> H"
    by (simp_all add: D_def H_def is_sep_def)
  have plain_DH: "plain n = (\<forall>c \<in> set n. \<not> is_sep c \<and> c \<noteq> D \<and> c \<noteq> H)" for n
    by (simp add: plain_def list_all_iff D_def H_def)
  have suf_eq: "segment_suffixes seg = suf"
    by (simp add: segment_suffixes_def suf_def parts_def D_def)
  have ids_eq: "segment_id_tokens seg = ids"
    by (simp add: segment_id_tokens_def segment_id_pieces_def ids_def ids_part_def parts_def D_def H_def)
  have out: "fst (transform_segment isdigit ex dg seg) = new_seg"
    by (simp add: transform_segment_eq suf_eq ids_eq new_seg_def new_ids_def mapped_def
        ids_part_def parts_def D_def H_def ascii_def)
  have parts: "parts = ids_part # suf"
    by (simp add: ids_part_def suf_def parts_def str_split_not_Nil)
  have parts_free: "\<forall>p \<in> set parts. D \<notin> set p \<and> set p \<subseteq> set seg"
    unfolding parts_def by (rule str_split_pieces_all)
  have seg_free: "\<forall>c \<in> set seg. \<not> is_sep c"
    using sf by (simp add: list_all_iff)
  have ids_part_free: "D \<notin> set ids_part" "\<forall>c \<in> set ids_part. \<not> is_sep c"
    using parts_free seg_free by (auto simp: parts)
  have suf_free: "\<forall>p \<in> set suf. D \<notin> set p \<and> (\<forall>c \<in> set p. \<not> is_sep c)"
    using parts_free seg_free by (auto simp: parts)
  have ids_plain: "\<forall>t \<in> set ids. plain t \<and> t \<noteq> []"
    using str_split_pieces_all [of H ids_part] ids_part_free
    by (auto simp: ids_def plain_DH)
  have mapped_plain: "\<forall>m \<in> set mapped. plain m \<and> m \<noteq> []"
    using ids_plain by (auto simp: mapped_def map_token_plain [OF ex dg] map_token_not_Nil)
  have new_ids_free: "D \<notin> set new_ids" "\<forall>c \<in> set new_ids. \<not> is_sep c"
    using set_str_join [of "[H]" mapped] mapped_plain ids_part_free DH
    by (auto simp: new_ids_def plain_DH)
  have split_new: "str_split D new_seg = new_ids # suf"
  proof (cases "suf = []")
    case True
    then show ?thesis
      using new_ids_free by (simp add: new_seg_def str_split_sep_free)
  next
    case False
    then have "str_split D (str_join [D] suf) = suf"
      using suf_free by (simp add: str_split_join)
    with False show ?thesis
      using new_ids_free by (simp add: new_seg_def str_split_append)
  qed
  have tokens_new: "length (filter (\<lambda>t. t \<noteq> []) (str_split H new_ids)) = length ids"
  proof (cases "ids = []")
    case True
    then show ?thesis
      by (simp add: new_ids_def ids_def)
  next
    case False
    then have m: "mapped \<noteq> []"
      by (simp add: mapped_def)
    have "\<forall>x \<in> set mapped. H \<notin> set x"
      using mapped_plain by (auto simp: plain_DH)
    then have "str_split H (str_join [H] mapped) = mapped"
      using m by (simp add: str_split_join)
    moreover have "filter (\<lambda>t. t \<noteq> []) mapped = mapped"
      using mapped_plain by (simp add: filter_id_conv)
    ultimately show ?thesis
      using False by (simp add: new_ids_def mapped_def)
  qed
  have free: "list_all (\<lambda>c. \<not> is_sep c) new_seg"
    using new_ids_free suf_free set_str_join [of "[D]" suf] DH
    by (auto simp: new_seg_def list_all_iff)
  have suf_new: "segment_suffixes new_seg = suf"
    using split_new by (simp add: segment_suffixes_def D_def)
  have ids_new: "length (segment_id_tokens new_seg) = length ids"
    using split_new tokens_new
    by (simp add: segment_id_tokens_def segment_id_pieces_def D_def H_def)
  have ne: "seg \<noteq> [] \<longrightarrow> new_seg \<noteq> []"
  proof (cases "ids = []")
    case True
    then have "new_seg = seg"
      using segment_rejoin [of seg]
      by (cases "suf = []")
        (simp_all add: new_seg_def new_ids_def suf_eq ids_part_def parts_def D_def ascii_def)
    then show ?thesis by simp
  next
    case False
    then have "str_join [H] mapped \<noteq> []"
      using mapped_plain by (intro str_join_not_Nil) (auto simp: mapped_def)
    with False show ?thesis
      by (simp add: new_seg_def new_ids_def)
  qed
  show ?thesis
    unfolding out suf_new ids_new suf_eq ids_eq using free ne by simp
qed

lemma re_split_tokens:
  "tk \<in> set (re_split body) \<Longrightarrow>
     (tk = ascii ''&'' \<or> tk = ascii ''|'') \<or> list_all (\<lambda>c. \<not> is_sep c) tk"
proof (induction body rule: body_induct)
  case (piece p)
  then show ?case by (simp add: re_split_sep_free)
next
  case (sep p c rest)
  then show ?case
    by (auto simp: re_split_append sep_token_iff)
qed

lemma rewrite_token_sep_free:
  assumes "plain_names ex" "plain_names dg" "list_all (\<lambda>c. \<not> is_sep c) p"
  shows "list_all (\<lambda>c. \<not> is_sep c) (rewrite_token isdigit ex dg p)"
    and "(rewrite_token isdigit ex dg p = []) = (p = [])"
    and "segment_suffixes (rewrite_token isdigit ex dg p) = segment_suffixes p"
    and "length (segment_id_tokens (rewrite_token isdigit ex dg p)) = length (segment_id_tokens p)"
  using transform_segment_shape [OF assms, of isdigit] sep_free_not_token [OF assms(3)]
  by (auto simp: rewrite_token_def transform_segment_Nil)

lemma re_split_rewrite:
  assumes ex: "plain_names ex" and dg: "plain_names dg"
  shows "re_split (concat (map (rewrite_token isdigit ex dg) (re_split body)))
       = map (rewrite_token isdigit ex dg) (re_split body)"
proof (induction body rule: body_induct)
  case (piece p)
  then show ?case
    by (simp add: re_split_sep_free rewrite_token_sep_free(1) [OF ex dg])
next
  case (sep p c rest)
  then show ?case
    by (simp add: re_split_append rewrite_token_sep rewrite_token_sep_free(1) [OF ex dg])
qed

lemma segments_rewrite:
  assumes ex: "plain_names ex" and dg: "plain_names dg"
  shows "segments (concat (map (rewrite_token isdigit ex dg) (re_split body)))
       = map (rewrite_token isdigit ex dg) (segments body)"
proof -
  let ?Q = "\<lambda>tk. \<not> (tk = ascii ''&'' \<or> tk = ascii ''|'') \<and> tk \<noteq> []"
  have keep: "?Q (rewrite_token isdigit ex dg tk) = ?Q tk" if "tk \<in> set (re_split body)" for tk
  proof (cases "tk = ascii ''&'' \<or> tk = ascii ''|''")
    case True
    then show ?thesis by (auto simp: rewrite_token_def)
  next
    case False
    with that re_split_tokens have f: "list_all (\<lambda>c. \<not> is_sep c) tk" by blast
    from rewrite_token_sep_free(1) [OF ex dg f, of isdigit]
    have "\<not> (rewrite_token isdigit ex dg tk = ascii ''&'' \<or> rewrite_token isdigit ex dg tk = ascii ''|'')"
      by (rule sep_free_not_token)
    with False rewrite_token_sep_free(2) [OF ex dg f, of isdigit] show ?thesis by simp
  qed
  have "segments (concat (map (rewrite_token isdigit ex dg) (re_split body)))
      = filter ?Q (map (rewrite_token isdigit ex dg) (re_split body))"
    by (simp only: segments_def re_split_rewrite [OF ex dg])
  also have "\<dots> = map (rewrite_token isdigit ex dg) (filter (\<lambda>tk. ?Q (rewrite_token isdigit ex dg tk)) (re_split body))"
    by (simp add: filter_map comp_def)
  also have "filter (\<lambda>tk. ?Q (rewrite_token isdigit ex dg tk)) (re_split body) = filter ?Q (re_split body)"
    by (rule filter_cong [OF refl]) (rule keep)
  finally show ?thesis
    by (simp only: segments_def)
qed

lemma cell_shape_rewrite:
  assumes ex: "plain_names ex" and dg: "plain_names dg"
  shows "cell_shape (concat (map (rewrite_token isdigit ex dg) (re_split body))) = cell_shape body"
proof -
  have "(length (segment_id_tokens (rewrite_token isdigit ex dg seg)),
         length (segment_suffixes (rewrite_token isdigit ex dg seg)))
      = (length (segment_id_tokens seg), length (segment_suffixes seg))"
    if "seg \<in> set (segments body)" for seg
  proof -
    from that have "seg \<in> set (re_split body)" "\<not> (seg = ascii ''&'' \<or> seg = ascii ''|'')"
      by (simp_all add: segments_def)
    with re_split_tokens have f: "list_all (\<lambda>c. \<not> is_sep c) seg" by blast
    show ?thesis
      by (simp only: rewrite_token_sep_free(3,4) [OF ex dg f])
  qed
  then show ?thesis
    by (simp add: cell_shape_def segments_rewrite [OF ex dg] comp_def)
qed

text \<open>
  Claim C6, as amended. For every pair of indexes none of whose names holds \<open>&\<close>,
  \<open>|\<close>, \<open>$\<close> or \<open>-\<close>, and every truthy cell (whether its identifier tokens
  resolve or not), the output is the prefix, when kept, followed by a text that splits
  by the same rules into as many segments as the body, each with as many identifier
  tokens and as many suffix parts as the segment it replaces. A name that holds one of
  the four characters changes the counts (the counterexample below).
\<close>

theorem cell_shape_kept:
  assumes "truthy text" and "plain_names id_to_name" and "plain_names id_to_name_digits"
  shows "\<exists>core.
      fst (transform_cell isdigit isspace text keep_prefix prefix id_to_name id_to_name_digits)
        = PyStr ((if keep_prefix then prefix else []) @ core)
      \<and> cell_shape core = cell_shape (cell_body isspace text prefix)"
  using transform_cell_eq [OF assms(1)] cell_shape_rewrite [OF assms(2,3)]
  by (intro exI [of _ "concat (map (rewrite_token isdigit id_to_name id_to_name_digits)
        (re_split (cell_body isspace text prefix)))"]) simp

theorem cell_shape_kept_witness:
  "transform_cell ascii_isdigit ascii_isspace (PyStr (ascii ''7-9$1|9'')) False item_prefix
      (map_of [(ascii ''7'', ascii ''Axe''), (ascii ''9'', ascii ''Bow'')]) (map_of [])
     = (PyStr (ascii ''Axe-Bow$1|Bow''), 0)
   \<and> cell_shape (ascii ''Axe-Bow$1|Bow'') = cell_shape (ascii ''7-9$1|9'')"
proof -
  let ?ex = "map_of [(ascii ''7'', ascii ''Axe''), (ascii ''9'', ascii ''Bow'')]"
  let ?dg = "map_of [] :: dict"
  have t: "truthy (PyStr (ascii ''7-9$1|9''))"
    by (simp add: ascii_def)
  have ex: "plain_names ?ex"
    by (auto simp: plain_names_def plain_def is_sep_def ascii_def split: if_splits)
  have dg: "plain_names ?dg"
    by (simp add: plain_names_def)
  have b: "cell_body ascii_isspace (PyStr (ascii ''7-9$1|9'')) item_prefix = ascii ''7-9$1|9''"
    by (simp add: cell_body_def strip_def startswith_def item_prefix_def ascii_def ascii_isspace_def)
  have r: "transform_cell ascii_isdigit ascii_isspace (PyStr (ascii ''7-9$1|9'')) False item_prefix
      ?ex ?dg = (PyStr (ascii ''Axe-Bow$1|Bow''), 0)"
    by (simp add: transform_cell_def strip_def startswith_def item_prefix_def Let_def
      map_token_def digits_only_def map_token_candidates_def ascii_def ascii_isdigit_def
      ascii_isspace_def)
  from cell_shape_kept [OF t ex dg, of ascii_isdigit ascii_isspace False item_prefix]
  have "cell_shape (ascii ''Axe-Bow$1|Bow'') = cell_shape (ascii ''7-9$1|9'')"
    unfolding r b by auto
  with r show ?thesis by simp
qed

theorem cell_shape_kept_counterexample:
  "transform_cell ascii_isdigit ascii_isspace (PyStr (ascii ''101$1'')) False item_prefix
      (map_of [(ascii ''101'', ascii ''Long-Sword'')]) (map_of [])
     = (PyStr (ascii ''Long-Sword$1''), 0)
   \<and> cell_shape (ascii ''101$1'') = [(1, 1)]
   \<and> cell_shape (ascii ''Long-Sword$1'') = [(2, 1)]"
  by (simp add: transform_cell_def strip_def startswith_def item_prefix_def Let_def
      map_token_def digits_only_def map_token_candidates_def ascii_def ascii_isdigit_def
      ascii_isspace_def cell_shape_def segments_def segment_id_tokens_def segment_id_pieces_def
      segment_suffixes_def)

end
